theory Spec2Isabelle
  imports Complex_Main "HOL-Library.Word"
begin

section \<open>JavaScript strings and the regular expression of the contact form\<close>

text \<open>
  A JavaScript string is a sequence of UTF-16 code units; \<open>length\<close> counts code units and a
  regular expression without the \<open>u\<close> flag matches code unit by code unit. \<open>js\<close> writes an
  ASCII literal of the source as such a sequence.
\<close>

type_synonym code_unit = "16 word"
type_synonym jsstring = "code_unit list"

definition js :: "string \<Rightarrow> jsstring" where
  "js s = map (\<lambda>c. of_nat (of_char c)) s"

text \<open>
  The line terminators of ECMAScript (LF, CR, U+2028, U+2029): the characters that \<open>.\<close>
  does not match when the \<open>s\<close> flag is absent.
\<close>

definition line_terminator :: "code_unit \<Rightarrow> bool" where
  "line_terminator c \<longleftrightarrow> c = 0x0A \<or> c = 0x0D \<or> c = 0x2028 \<or> c = 0x2029"

text \<open>
  The fragment of regular expressions that \<open>/.+@.+/\<close> is written in. \<open>ends r s\<close> lists, in
  the order in which a backtracking matcher tries them, what is left of \<open>s\<close> after each way
  of matching \<open>r\<close> at its start; \<open>+\<close> is greedy, so a further iteration comes before
  stopping. No expression of this fragment matches the empty string, so the test
  \<open>length t < length s\<close> never fails; it is there for the termination proof.
\<close>

datatype regex = Dot | Lit code_unit | Seq regex regex | OneOrMore regex

fun ends :: "regex \<Rightarrow> jsstring \<Rightarrow> jsstring list" where
  "ends Dot s = (case s of [] \<Rightarrow> [] | c # cs \<Rightarrow> if line_terminator c then [] else [cs])"
| "ends (Lit a) s = (case s of [] \<Rightarrow> [] | c # cs \<Rightarrow> if c = a then [cs] else [])"
| "ends (Seq r1 r2) s = concat (map (ends r2) (ends r1 s))"
| "ends (OneOrMore r) s =
     concat (map (\<lambda>t. (if length t < length s then ends (OneOrMore r) t else []) @ [t])
       (ends r s))"

text \<open>
  \<open>RegExp.prototype.test\<close> on an expression with neither the \<open>g\<close> nor the \<open>y\<close> flag: a
  match may start at any index, tried from the left.
\<close>

fun test :: "regex \<Rightarrow> jsstring \<Rightarrow> bool" where
  "test r [] = (ends r [] \<noteq> [])"
| "test r (c # cs) = (ends r (c # cs) \<noteq> [] \<or> test r cs)"

text \<open>\<open>/.+@.+/\<close> (App.jsx, line 267); \<open>0x40\<close> is the code unit of \<open>@\<close>.\<close>

definition email_pattern :: regex where
  "email_pattern = Seq (OneOrMore Dot) (Seq (Lit 0x40) (OneOrMore Dot))"


section \<open>JSON values and HTTP exchanges\<close>

text \<open>
  What \<open>JSON.parse\<close> can return. A number is the rational that its double denotes (JSON
  has neither NaN nor the infinities); the components only ever test a number for being
  zero. An object keeps its members in the order of the text.
\<close>

datatype json =
    JNull
  | JBool bool
  | JNum rat
  | JStr jsstring
  | JArr "json list"
  | JObj "(jsstring \<times> json) list"

datatype http_method = GET | POST

record request =
  req_method :: http_method
  url :: jsstring
  headers :: "(jsstring \<times> jsstring) list"
  payload :: "json option"

text \<open>\<open>res.json()\<close> either rejects (the body is not JSON) or resolves to the parsed value.\<close>

datatype parsed = Unparsable | Parsed json

record response =
  http_status :: nat
  body :: parsed

text \<open>\<open>res.ok\<close>: the status is in the range 200 to 299.\<close>

definition ok :: "response \<Rightarrow> bool" where
  "ok r \<longleftrightarrow> 200 \<le> http_status r \<and> http_status r \<le> 299"

text \<open>
  How an awaited \<open>fetch\<close> ends: the promise never settles (the source sets no timeout), it
  rejects (a network error), or it resolves to a response, whatever its status.
\<close>

datatype outcome = Pending | Threw | Responded response

text \<open>
  \<open>BACKEND\<close> (line 6): the build variable \<open>VITE_BACKEND_URL\<close>, or the local address when it
  is unset or empty.
\<close>

definition BACKEND :: "jsstring option \<Rightarrow> jsstring" where
  "BACKEND env =
     (case env of
        None \<Rightarrow> js ''http://localhost:8000''
      | Some u \<Rightarrow> if u = [] then js ''http://localhost:8000'' else u)"


section \<open>The contact form\<close>

datatype status = Idle | Loading | Success | Error

record form =
  name :: jsstring
  email :: jsstring
  message :: jsstring

record contact =
  status :: status
  form :: form

text \<open>The two \<open>useState\<close> initial values of \<open>Contact\<close> (lines 265 and 266).\<close>

definition Contact_init :: contact where
  "Contact_init = \<lparr>status = Idle, form = \<lparr>name = [], email = [], message = []\<rparr>\<rparr>"

text \<open>
  \<open>valid\<close> (line 267). The source's value is the first falsy operand of the \<open>&&\<close> chain or
  the last operand; it is only ever negated, so its truthiness is what is modelled.
\<close>

definition valid :: "form \<Rightarrow> bool" where
  "valid f \<longleftrightarrow> name f \<noteq> [] \<and> test email_pattern (email f) \<and> length (message f) > 5"

text \<open>
  The request of line 274. \<open>JSON.stringify(form)\<close> is kept as the JSON object that it
  serialises, with the members in the order of the state object.
\<close>

definition form_payload :: "form \<Rightarrow> json" where
  "form_payload f =
     JObj [(js ''name'', JStr (name f)), (js ''email'', JStr (email f)),
           (js ''message'', JStr (message f))]"

definition contact_request :: "jsstring \<Rightarrow> form \<Rightarrow> request" where
  "contact_request base f =
     \<lparr>req_method = POST, url = base @ js ''/api/contact'',
      headers = [(js ''Content-Type'', js ''application/json'')],
      payload = Some (form_payload f)\<rparr>"

text \<open>
  What a run of a handler does that can be seen from outside, in order: the calls of
  \<open>setStatus\<close> and the requests handed to \<open>fetch\<close>.
\<close>

datatype effect = SetStatus status | Fetch request

text \<open>
  \<open>submit\<close> (lines 269 to 280), run to the point where it stops: at the early return, at
  an \<open>await\<close> that never settles, or at its end. \<open>base\<close> is the value of \<open>BACKEND\<close> and
  \<open>out\<close> is how the one \<open>fetch\<close> ends. The call of \<open>preventDefault\<close> only suppresses the
  browser's page navigation and is left out.
\<close>

definition submit :: "jsstring \<Rightarrow> outcome \<Rightarrow> contact \<Rightarrow> contact \<times> effect list" where
  "submit base out c =
     (if \<not> valid (form c) then (c, [])
      else
        let sent = [SetStatus Loading, Fetch (contact_request base (form c))] in
        (case out of
           Pending \<Rightarrow> (c\<lparr>status := Loading\<rparr>, sent)
         | Responded res \<Rightarrow>
             if ok res then (c\<lparr>status := Success\<rparr>, sent @ [SetStatus Success])
             else (c\<lparr>status := Error\<rparr>, sent @ [SetStatus Error])
         | Threw \<Rightarrow> (c\<lparr>status := Error\<rparr>, sent @ [SetStatus Error])))"

text \<open>The \<open>onChange\<close> handlers of the three fields (lines 295, 297 and 299).\<close>

definition change_name :: "jsstring \<Rightarrow> contact \<Rightarrow> contact" where
  "change_name v c = c\<lparr>form := (form c)\<lparr>name := v\<rparr>\<rparr>"

definition change_email :: "jsstring \<Rightarrow> contact \<Rightarrow> contact" where
  "change_email v c = c\<lparr>form := (form c)\<lparr>email := v\<rparr>\<rparr>"

definition change_message :: "jsstring \<Rightarrow> contact \<Rightarrow> contact" where
  "change_message v c = c\<lparr>form := (form c)\<lparr>message := v\<rparr>\<rparr>"

text \<open>The \<open>disabled\<close> attribute of the submit button (line 300).\<close>

definition disabled :: "contact \<Rightarrow> bool" where
  "disabled c \<longleftrightarrow> \<not> valid (form c) \<or> status c = Loading"

text \<open>
  The user asking for a submission, by a click on the button or by the Enter key in a
  field. The browser dispatches the form's \<open>submit\<close> event, and so runs \<open>submit\<close>, only
  when the form's submit button is not disabled and its own constraint validation of the
  fields (\<open>required\<close>, \<open>type="email"\<close>) passes; \<open>accepts\<close> is the result of that
  validation, which the source leaves to the browser.
\<close>

definition request_submit ::
    "jsstring \<Rightarrow> outcome \<Rightarrow> bool \<Rightarrow> contact \<Rightarrow> contact \<times> effect list" where
  "request_submit base out accepts c =
     (if disabled c \<or> \<not> accepts then (c, []) else submit base out c)"

text \<open>
  The shape that the specification asks of an e-mail address, in its words: it contains an
  \<open>@\<close> sign with a non-empty segment on each side, that is, an \<open>@\<close> that is neither the
  first nor the last code unit. The guard of the source is \<open>test email_pattern\<close>; this
  predicate is what it is compared with.
\<close>

definition email_shape :: "jsstring \<Rightarrow> bool" where
  "email_shape s \<longleftrightarrow> 0x40 \<in> set (butlast (tl s))"


section \<open>Reading parsed JSON the way the components do\<close>

datatype js_error = TypeError

text \<open>
  \<open>own v k\<close> is the member \<open>k\<close> of a parsed object (the last one when the text repeats the
  key, as \<open>JSON.parse\<close> keeps it) and \<open>None\<close>, for \<open>undefined\<close>, otherwise. \<open>read v k\<close> is
  the property read \<open>v.k\<close>, used for the keys \<open>tags\<close> and \<open>slug\<close> only, which no prototype
  defines: reading a property of \<open>null\<close> throws, and every other value that is not an
  object with that member gives \<open>undefined\<close>.
\<close>

definition own :: "json \<Rightarrow> jsstring \<Rightarrow> json option" where
  "own v k = (case v of JObj kvs \<Rightarrow> map_of (rev kvs) k | _ \<Rightarrow> None)"

definition read :: "json \<Rightarrow> jsstring \<Rightarrow> js_error + json option" where
  "read v k = (case v of JNull \<Rightarrow> Inl TypeError | _ \<Rightarrow> Inr (own v k))"

text \<open>Truthiness; \<open>None\<close> is \<open>undefined\<close>.\<close>

fun truthy :: "json option \<Rightarrow> bool" where
  "truthy None = False"
| "truthy (Some JNull) = False"
| "truthy (Some (JBool b)) = b"
| "truthy (Some (JNum n)) = (n \<noteq> 0)"
| "truthy (Some (JStr s)) = (s \<noteq> [])"
| "truthy (Some (JArr xs)) = True"
| "truthy (Some (JObj kvs)) = True"

text \<open>
  \<open>Array.prototype.flatMap\<close>: the callback's result is spliced in when it is an array and
  appended as it is otherwise; an exception of the callback ends the call.
\<close>

fun flatMap :: "(json \<Rightarrow> js_error + json) \<Rightarrow> json list \<Rightarrow> js_error + json list" where
  "flatMap f [] = Inr []"
| "flatMap f (p # ps) =
     (case f p of
        Inl e \<Rightarrow> Inl e
      | Inr v \<Rightarrow>
          (case flatMap f ps of
             Inl e \<Rightarrow> Inl e
           | Inr rest \<Rightarrow> Inr ((case v of JArr xs \<Rightarrow> xs | _ \<Rightarrow> [v]) @ rest)))"

text \<open>
  \<open>Array.from(new Set(xs))\<close>: the elements in insertion order, an element being added when
  no earlier one is the same value. Strings, numbers, booleans and \<open>null\<close> are the same
  when they are equal; \<open>JSON.parse\<close> allocates every array and object afresh, so two of
  them at different places are never the same.
\<close>

definition same_value_zero :: "json \<Rightarrow> json \<Rightarrow> bool" where
  "same_value_zero a b \<longleftrightarrow> (case a of JArr xs \<Rightarrow> False | JObj kvs \<Rightarrow> False | _ \<Rightarrow> a = b)"

definition set_add :: "json list \<Rightarrow> json \<Rightarrow> json list" where
  "set_add acc x = (if list_ex (same_value_zero x) acc then acc else acc @ [x])"

definition new_Set :: "json list \<Rightarrow> json list" where
  "new_Set xs = foldl set_add [] xs"

text \<open>\<open>String.prototype.includes\<close> with a string argument: \<open>t\<close> occurs in \<open>s\<close>.\<close>

fun str_includes :: "jsstring \<Rightarrow> jsstring \<Rightarrow> bool" where
  "str_includes [] t = (t = [])"
| "str_includes (c # cs) t = (take (length t) (c # cs) = t \<or> str_includes cs t)"

text \<open>
  \<open>v?.includes(a)\<close> for a string \<open>a\<close>, as the truthiness of its value: \<open>undefined\<close> when
  \<open>v\<close> is \<open>undefined\<close> or \<open>null\<close>, membership for an array, the substring test for a
  string, and a \<open>TypeError\<close> for a number, a boolean or an object, none of which has a
  callable \<open>includes\<close>.
\<close>

fun opt_includes :: "json option \<Rightarrow> jsstring \<Rightarrow> js_error + bool" where
  "opt_includes None a = Inr False"
| "opt_includes (Some JNull) a = Inr False"
| "opt_includes (Some (JArr xs)) a = Inr (JStr a \<in> set xs)"
| "opt_includes (Some (JStr s)) a = Inr (str_includes s a)"
| "opt_includes (Some (JBool b)) a = Inl TypeError"
| "opt_includes (Some (JNum n)) a = Inl TypeError"
| "opt_includes (Some (JObj kvs)) a = Inl TypeError"

text \<open>\<open>Array.prototype.filter\<close> with a callback that may throw.\<close>

fun filter_js :: "(json \<Rightarrow> js_error + bool) \<Rightarrow> json list \<Rightarrow> js_error + json list" where
  "filter_js f [] = Inr []"
| "filter_js f (p # ps) =
     (case f p of
        Inl e \<Rightarrow> Inl e
      | Inr keep \<Rightarrow>
          (case filter_js f ps of
             Inl e \<Rightarrow> Inl e
           | Inr rest \<Rightarrow> Inr (if keep then p # rest else rest)))"


section \<open>The project gallery\<close>

record projects_state =
  projects :: json
  active :: jsstring
  loading :: bool
  error :: jsstring

text \<open>The four \<open>useState\<close> initial values of \<open>Projects\<close> (lines 166 to 169).\<close>

definition Projects_init :: projects_state where
  "Projects_init = \<lparr>projects = JArr [], active = js ''All'', loading = True, error = []\<rparr>"

definition projects_request :: "jsstring \<Rightarrow> request" where
  "projects_request base =
     \<lparr>req_method = GET, url = base @ js ''/api/projects'', headers = [], payload = None\<rparr>"

text \<open>
  \<open>load\<close> (lines 172 to 180), given how the \<open>fetch\<close> ends. The status of the response is
  not looked at: whatever parses is stored by \<open>setProjects\<close>. The \<open>catch\<close> block runs when
  \<open>fetch\<close> or \<open>res.json()\<close> rejects, the \<open>finally\<close> block whenever the function gets past
  its \<open>await\<close>s.
\<close>

definition load :: "outcome \<Rightarrow> projects_state \<Rightarrow> projects_state" where
  "load out st =
     (case out of
        Pending \<Rightarrow> st
      | Threw \<Rightarrow> st\<lparr>error := js ''Could not load projects'', loading := False\<rparr>
      | Responded res \<Rightarrow>
          (case body res of
             Unparsable \<Rightarrow> st\<lparr>error := js ''Could not load projects'', loading := False\<rparr>
           | Parsed data \<Rightarrow> st\<lparr>projects := data, loading := False\<rparr>))"

text \<open>The callback \<open>p => p.tags || []\<close> of line 184.\<close>

definition tags_or_empty :: "json \<Rightarrow> js_error + json" where
  "tags_or_empty p =
     (case read p (js ''tags'') of
        Inl e \<Rightarrow> Inl e
      | Inr None \<Rightarrow> Inr (JArr [])
      | Inr (Some v) \<Rightarrow> Inr (if truthy (Some v) then v else JArr []))"

text \<open>
  \<open>tags\<close> (line 184). Only an array has \<open>flatMap\<close>: on any other value of \<open>projects\<close> the
  call throws.
\<close>

definition tags :: "json \<Rightarrow> js_error + json list" where
  "tags ps =
     (case ps of
        JArr xs \<Rightarrow>
          (case flatMap tags_or_empty xs of Inl e \<Rightarrow> Inl e | Inr ts \<Rightarrow> Inr (new_Set ts))
      | _ \<Rightarrow> Inl TypeError)"

text \<open>
  \<open>filtered\<close> (line 185), for the value of \<open>projects\<close> and the active pill; the callback is
  \<open>p => p.tags?.includes(active)\<close>.
\<close>

definition has_active :: "jsstring \<Rightarrow> json \<Rightarrow> js_error + bool" where
  "has_active a p =
     (case read p (js ''tags'') of Inl e \<Rightarrow> Inl e | Inr v \<Rightarrow> opt_includes v a)"

definition filtered :: "json \<Rightarrow> jsstring \<Rightarrow> js_error + json" where
  "filtered ps a =
     (if a = js ''All'' then Inr ps
      else
        (case ps of
           JArr xs \<Rightarrow>
             (case filter_js (has_active a) xs of Inl e \<Rightarrow> Inl e | Inr ys \<Rightarrow> Inr (JArr ys))
         | _ \<Rightarrow> Inl TypeError))"

text \<open>
  What \<open>Projects\<close> renders (lines 184 to 208): the pills \<open>['All', ...tags]\<close> and, below them,
  the loading text, the error string or the grid. \<open>Grid\<close> lists the records handed to
  \<open>ProjectCard\<close>, whose own markup is not modelled. An exception thrown while rendering is
  not caught anywhere in the source (there is no error boundary), so \<open>Inl\<close> is the page
  going blank.
\<close>

datatype listing = LoadingText | ErrorText jsstring | Grid "json list"

record projects_view =
  pills :: "json list"
  listing :: listing

definition Projects :: "projects_state \<Rightarrow> js_error + projects_view" where
  "Projects st =
     (case tags (projects st) of
        Inl e \<Rightarrow> Inl e
      | Inr ts \<Rightarrow>
          (case filtered (projects st) (active st) of
             Inl e \<Rightarrow> Inl e
           | Inr shown \<Rightarrow>
               if loading st then Inr \<lparr>pills = JStr (js ''All'') # ts, listing = LoadingText\<rparr>
               else if error st \<noteq> [] then
                 Inr \<lparr>pills = JStr (js ''All'') # ts, listing = ErrorText (error st)\<rparr>
               else
                 (case shown of
                    JArr ys \<Rightarrow> Inr \<lparr>pills = JStr (js ''All'') # ts, listing = Grid ys\<rparr>
                  | _ \<Rightarrow> Inl TypeError)))"

text \<open>
  The data model of the specification: a project is an object whose \<open>tags\<close> member is
  absent, \<open>null\<close> or a list of strings, and a project collection is a list of projects.
  \<open>project_tags\<close> is the tag list of such a project, empty when it has none, and
  \<open>first_index a xs\<close> is where \<open>a\<close> first appears in \<open>xs\<close>.
\<close>

fun is_label :: "json \<Rightarrow> bool" where
  "is_label (JStr s) = True"
| "is_label _ = False"

fun is_project :: "json \<Rightarrow> bool" where
  "is_project (JObj kvs) =
     (case map_of (rev kvs) (js ''tags'') of
        None \<Rightarrow> True
      | Some JNull \<Rightarrow> True
      | Some (JArr ts) \<Rightarrow> list_all is_label ts
      | Some _ \<Rightarrow> False)"
| "is_project _ = False"

fun label :: "json \<Rightarrow> jsstring" where
  "label (JStr s) = s"
| "label _ = []"

definition project_tags :: "json \<Rightarrow> jsstring list" where
  "project_tags p = (case own p (js ''tags'') of Some (JArr ts) \<Rightarrow> map label ts | _ \<Rightarrow> [])"

definition first_index :: "'a \<Rightarrow> 'a list \<Rightarrow> nat" where
  "first_index a xs = length (takeWhile (\<lambda>x. x \<noteq> a) xs)"


section \<open>The posts section\<close>

definition Blog_init :: json where
  "Blog_init = JArr []"

definition posts_request :: "jsstring \<Rightarrow> request" where
  "posts_request base =
     \<lparr>req_method = GET, url = base @ js ''/api/posts'', headers = [], payload = None\<rparr>"

text \<open>
  The promise chain of line 243, \<open>fetch(...).then(r => r.json()).then(setPosts).catch(()=>{})\<close>:
  a rejection of \<open>fetch\<close> or of \<open>r.json()\<close> is dropped and the state is left as it was.
\<close>

definition load_posts :: "outcome \<Rightarrow> json \<Rightarrow> json" where
  "load_posts out posts =
     (case out of
        Pending \<Rightarrow> posts
      | Threw \<Rightarrow> posts
      | Responded res \<Rightarrow> (case body res of Unparsable \<Rightarrow> posts | Parsed data \<Rightarrow> data))"

text \<open>
  \<open>posts.length\<close>: the length of an array or a string, the member of that name of an
  object, \<open>undefined\<close> for a number or a boolean, and a \<open>TypeError\<close> for \<open>null\<close>.
\<close>

fun length_of :: "json \<Rightarrow> js_error + json option" where
  "length_of JNull = Inl TypeError"
| "length_of (JArr xs) = Inr (Some (JNum (of_nat (length xs))))"
| "length_of (JStr s) = Inr (Some (JNum (of_nat (length s))))"
| "length_of (JObj kvs) = Inr (own (JObj kvs) (js ''length''))"
| "length_of (JBool b) = Inr None"
| "length_of (JNum n) = Inr None"

text \<open>\<open>posts.map(po => <article key={po.slug} ...>)\<close>: reading \<open>slug\<close> of \<open>null\<close> throws.\<close>

fun articles :: "json list \<Rightarrow> js_error + json list" where
  "articles [] = Inr []"
| "articles (po # pos) =
     (case read po (js ''slug'') of
        Inl e \<Rightarrow> Inl e
      | Inr k \<Rightarrow> (case articles pos of Inl e \<Rightarrow> Inl e | Inr rest \<Rightarrow> Inr (po # rest)))"

text \<open>
  What \<open>Blog\<close> renders (lines 245 to 261): \<open>None\<close> for \<open>return null\<close>, where no element at
  all is emitted, and otherwise the section with one article for each post. Only an array
  has \<open>map\<close>. The component has no state for an error and no markup for one.
\<close>

definition Blog :: "json \<Rightarrow> js_error + json list option" where
  "Blog posts =
     (case length_of posts of
        Inl e \<Rightarrow> Inl e
      | Inr n \<Rightarrow>
          if \<not> truthy n then Inr None
          else
            (case posts of
               JArr xs \<Rightarrow> (case articles xs of Inl e \<Rightarrow> Inl e | Inr as \<Rightarrow> Inr (Some as))
             | _ \<Rightarrow> Inl TypeError))"


section \<open>The theme\<close>

text \<open>
  What of the browser the theme code touches: the local store, the class list of the
  document root, and the answer of the media query \<open>(prefers-color-scheme: dark)\<close>. The
  store is taken to be available (its accessors do not throw).
\<close>

record browser =
  localStorage :: "jsstring \<rightharpoonup> jsstring"
  classList :: "jsstring set"
  prefers_dark :: bool

text \<open>The initialiser of the theme state (lines 21 to 25); an empty string is falsy.\<close>

definition initial_theme :: "browser \<Rightarrow> jsstring" where
  "initial_theme b =
     (case localStorage b (js ''theme'') of
        Some stored \<Rightarrow>
          if stored \<noteq> [] then stored
          else if prefers_dark b then js ''dark'' else js ''light''
      | None \<Rightarrow> if prefers_dark b then js ''dark'' else js ''light'')"

text \<open>The effect of \<open>useTheme\<close> (lines 26 to 31), which runs when \<open>theme\<close> has changed.\<close>

definition theme_effect :: "jsstring \<Rightarrow> browser \<Rightarrow> browser" where
  "theme_effect t b =
     b\<lparr>classList :=
         (if t = js ''dark'' then insert (js ''dark'') (classList b)
          else classList b - {js ''dark''}),
       localStorage := (localStorage b)(js ''theme'' \<mapsto> t)\<rparr>"

record app =
  theme :: jsstring
  browser :: browser

text \<open>
  The first render of \<open>App\<close> and the effects that follow it, in the order of their hooks:
  the effect of \<open>useTheme\<close> (called on line 345), then the effect of lines 353 to 355. The
  effects of the children touch neither the store nor the class list.
\<close>

definition mount :: "browser \<Rightarrow> app" where
  "mount b =
     (let t = initial_theme b;
          b1 = theme_effect t b;
          b2 = b1\<lparr>classList := insert (js ''dark'') (classList b1)\<rparr>
      in \<lparr>theme = t, browser = b2\<rparr>)"

text \<open>
  \<open>setTheme\<close>, with the re-render and the effect that follow it when the value is new, and
  the click handler of the theme button (line 71).
\<close>

definition setTheme :: "jsstring \<Rightarrow> app \<Rightarrow> app" where
  "setTheme t a = (if t = theme a then a else \<lparr>theme = t, browser = theme_effect t (browser a)\<rparr>)"

definition toggle_theme :: "app \<Rightarrow> app" where
  "toggle_theme a = setTheme (if theme a = js ''dark'' then js ''light'' else js ''dark'') a"


section \<open>Example inputs\<close>

text \<open>The form of the specification's submission example, before it is submitted.\<close>

abbreviation ann :: contact where
  "ann \<equiv> \<lparr>status = Idle,
          form = \<lparr>name = js ''Ann'', email = js ''ann@x.io'', message = js ''Hello there''\<rparr>\<rparr>"

text \<open>The same form once a first submission has been answered with a success status.\<close>

abbreviation ann_sent :: contact where
  "ann_sent \<equiv> fst (request_submit (BACKEND None)
      (Responded \<lparr>http_status = 200, body = Unparsable\<rparr>) True ann)"

text \<open>Three forms that the guard rejects, one for each of its conditions.\<close>

abbreviation nameless :: contact where
  "nameless \<equiv> \<lparr>status = Idle,
          form = \<lparr>name = [], email = js ''a@b'', message = js ''hello!''\<rparr>\<rparr>"

abbreviation no_at :: contact where
  "no_at \<equiv> \<lparr>status = Idle,
          form = \<lparr>name = js ''Ann'', email = js ''not-an-email'', message = js ''hello!''\<rparr>\<rparr>"

abbreviation short_message :: contact where
  "short_message \<equiv> \<lparr>status = Idle,
          form = \<lparr>name = js ''Ann'', email = js ''ann@x.io'', message = js ''hello''\<rparr>\<rparr>"

text \<open>
  A first visit in a browser that prefers the light scheme, and a visit with \<open>light\<close>
  stored in a browser that prefers the dark scheme.
\<close>

abbreviation fresh_light :: browser where
  "fresh_light \<equiv> \<lparr>localStorage = Map.empty, classList = {}, prefers_dark = False\<rparr>"

abbreviation stored_light :: browser where
  "stored_light \<equiv>
     \<lparr>localStorage = [js ''theme'' \<mapsto> js ''light''], classList = {}, prefers_dark = True\<rparr>"

text \<open>An error response whose body is JSON, as a backend sends for an unknown route.\<close>

abbreviation not_found :: response where
  "not_found \<equiv>
     \<lparr>http_status = 404, body = Parsed (JObj [(js ''detail'', JStr (js ''Not Found''))])\<rparr>"

text \<open>Three projects, the second without tags.\<close>

abbreviation gallery :: "json list" where
  "gallery \<equiv>
     [JObj [(js ''slug'', JStr (js ''a'')),
            (js ''tags'', JArr [JStr (js ''react''), JStr (js ''rust'')])],
      JObj [(js ''slug'', JStr (js ''b''))],
      JObj [(js ''slug'', JStr (js ''c'')),
            (js ''tags'', JArr [JStr (js ''rust''), JStr (js ''go''), JStr (js ''react'')])]]"


section \<open>What the regular expression accepts\<close>

text \<open>
  The equation of \<open>ends\<close> for \<open>+\<close> unfolds under itself, so it is applied by hand.
\<close>

declare ends.simps(4) [simp del]

lemma ends_plus_dot_Nil: "ends (OneOrMore Dot) [] = []"
  by (simp add: ends.simps(4))

lemma ends_plus_dot_Cons:
  "ends (OneOrMore Dot) (c # cs) =
     (if line_terminator c then [] else ends (OneOrMore Dot) cs @ [cs])"
  by (simp add: ends.simps(4) [of Dot "c # cs"])

lemma in_ends_plus_dot:
  "t \<in> set (ends (OneOrMore Dot) s) \<longleftrightarrow>
     (\<exists>w. w \<noteq> [] \<and> s = w @ t \<and> (\<forall>c\<in>set w. \<not> line_terminator c))"
proof (induction s)
  case Nil
  show ?case by (simp only: ends_plus_dot_Nil) simp
next
  case (Cons c cs)
  show ?case
  proof (cases "line_terminator c")
    case True
    have "\<not> (\<exists>w. w \<noteq> [] \<and> c # cs = w @ t \<and> (\<forall>c\<in>set w. \<not> line_terminator c))"
    proof
      assume "\<exists>w. w \<noteq> [] \<and> c # cs = w @ t \<and> (\<forall>c\<in>set w. \<not> line_terminator c)"
      then obtain w where w: "w \<noteq> []" "c # cs = w @ t" "\<forall>c\<in>set w. \<not> line_terminator c"
        by blast
      then have "c \<in> set w" by (cases w) auto
      then show False using w(3) True by blast
    qed
    moreover have "ends (OneOrMore Dot) (c # cs) = []"
      using True by (simp add: ends_plus_dot_Cons)
    ultimately show ?thesis by simp
  next
    case False
    have "t \<in> set (ends (OneOrMore Dot) (c # cs)) \<longleftrightarrow>
            t = cs \<or> t \<in> set (ends (OneOrMore Dot) cs)"
      using False by (simp only: ends_plus_dot_Cons) auto
    also have "\<dots> \<longleftrightarrow>
        (\<exists>w. w \<noteq> [] \<and> c # cs = w @ t \<and> (\<forall>c\<in>set w. \<not> line_terminator c))"
      (is "?l \<longleftrightarrow> ?r")
    proof
      assume ?l
      then show ?r
      proof
        assume "t = cs"
        then have "[c] \<noteq> [] \<and> c # cs = [c] @ t \<and> (\<forall>c\<in>set [c]. \<not> line_terminator c)"
          using False by simp
        then show ?r by blast
      next
        assume "t \<in> set (ends (OneOrMore Dot) cs)"
        then obtain w where w: "w \<noteq> []" "cs = w @ t" "\<forall>c\<in>set w. \<not> line_terminator c"
          using Cons.IH by blast
        then have "c # w \<noteq> [] \<and> c # cs = (c # w) @ t \<and> (\<forall>c\<in>set (c # w). \<not> line_terminator c)"
          using False by simp
        then show ?r by blast
      qed
    next
      assume ?r
      then obtain w where w: "w \<noteq> []" "c # cs = w @ t" "\<forall>c\<in>set w. \<not> line_terminator c"
        by blast
      then obtain w' where w': "w = c # w'" "cs = w' @ t"
        by (cases w) auto
      show ?l
      proof (cases "w' = []")
        case True
        then show ?thesis using w' by simp
      next
        case False
        then have "t \<in> set (ends (OneOrMore Dot) cs)"
          using Cons.IH w w' by auto
        then show ?thesis by simp
      qed
    qed
    finally show ?thesis .
  qed
qed

lemma in_ends_lit: "t \<in> set (ends (Lit a) s) \<longleftrightarrow> s = a # t"
  by (cases s) auto

lemma in_ends_seq:
  "t \<in> set (ends (Seq r1 r2) s) \<longleftrightarrow> (\<exists>m \<in> set (ends r1 s). t \<in> set (ends r2 m))"
  by auto

lemma test_iff: "test r s \<longleftrightarrow> (\<exists>p t. s = p @ t \<and> ends r t \<noteq> [])"
proof (induction s)
  case Nil
  show ?case by simp
next
  case (Cons c cs)
  show ?case (is "?l \<longleftrightarrow> ?r")
  proof
    assume ?l
    then consider "ends r (c # cs) \<noteq> []" | "test r cs" by auto
    then show ?r
    proof cases
      case 1
      then have "c # cs = [] @ (c # cs) \<and> ends r (c # cs) \<noteq> []" by simp
      then show ?thesis by blast
    next
      case 2
      then obtain p t where "cs = p @ t" "ends r t \<noteq> []" using Cons.IH by blast
      then have "c # cs = (c # p) @ t \<and> ends r t \<noteq> []" by simp
      then show ?thesis by blast
    qed
  next
    assume ?r
    then obtain p t where pt: "c # cs = p @ t" "ends r t \<noteq> []" by blast
    show ?l
    proof (cases p)
      case Nil
      then have "ends r (c # cs) \<noteq> []" using pt by auto
      then show ?thesis by simp
    next
      case (Cons d p')
      then have "cs = p' @ t" using pt by simp
      then have "test r cs" using Cons.IH pt(2) by blast
      then show ?thesis by simp
    qed
  qed
qed

lemma email_shape_iff:
  "email_shape s \<longleftrightarrow> (\<exists>u v. u \<noteq> [] \<and> v \<noteq> [] \<and> s = u @ 0x40 # v)"
proof
  assume "email_shape s"
  then have mem: "0x40 \<in> set (butlast (tl s))"
    by (simp add: email_shape_def)
  then obtain ys zs where mid: "butlast (tl s) = ys @ 0x40 # zs"
    by (auto simp: in_set_conv_decomp)
  have "tl s \<noteq> []" using mem by auto
  then have "s = hd s # tl s" "tl s = butlast (tl s) @ [last (tl s)]"
    by (cases s; simp)+
  then have "s = (hd s # ys) @ 0x40 # (zs @ [last (tl s)])"
    using mid by (metis append_Cons append_assoc)
  then show "\<exists>u v. u \<noteq> [] \<and> v \<noteq> [] \<and> s = u @ 0x40 # v"
    by blast
next
  assume "\<exists>u v. u \<noteq> [] \<and> v \<noteq> [] \<and> s = u @ 0x40 # v"
  then obtain u v where uv: "u \<noteq> []" "v \<noteq> []" "s = u @ 0x40 # v"
    by blast
  obtain a u' where u: "u = a # u'" using uv(1) by (cases u) auto
  obtain v' z where v: "v = v' @ [z]" using uv(2) by (cases v rule: rev_cases) auto
  have "tl s = (u' @ 0x40 # v') @ [z]" using uv(3) u v by simp
  then have "butlast (tl s) = u' @ 0x40 # v'" by (simp only: butlast_snoc)
  then show "email_shape s" by (simp add: email_shape_def)
qed

lemma ends_email_pattern_iff:
  "ends email_pattern s \<noteq> [] \<longleftrightarrow>
     (\<exists>w1 w2 t. s = w1 @ 0x40 # w2 @ t \<and> w1 \<noteq> [] \<and> w2 \<noteq> [] \<and>
        (\<forall>c\<in>set w1. \<not> line_terminator c) \<and> (\<forall>c\<in>set w2. \<not> line_terminator c))"
proof -
  have "ends email_pattern s \<noteq> [] \<longleftrightarrow> (\<exists>t. t \<in> set (ends email_pattern s))"
    by (cases "ends email_pattern s") auto
  also have "\<dots> \<longleftrightarrow>
      (\<exists>t m1 m2. m1 \<in> set (ends (OneOrMore Dot) s) \<and> m2 \<in> set (ends (Lit 0x40) m1) \<and>
         t \<in> set (ends (OneOrMore Dot) m2))"
    unfolding email_pattern_def in_ends_seq by blast
  also have "\<dots> \<longleftrightarrow>
     (\<exists>w1 w2 t. s = w1 @ 0x40 # w2 @ t \<and> w1 \<noteq> [] \<and> w2 \<noteq> [] \<and>
        (\<forall>c\<in>set w1. \<not> line_terminator c) \<and> (\<forall>c\<in>set w2. \<not> line_terminator c))"
    unfolding in_ends_plus_dot in_ends_lit by blast
  finally show ?thesis .
qed

lemma test_email_pattern_iff:
  "test email_pattern s \<longleftrightarrow>
     (\<exists>u a b v. s = u @ a # 0x40 # b # v \<and> \<not> line_terminator a \<and> \<not> line_terminator b)"
  (is "?l \<longleftrightarrow> ?r")
proof
  assume ?l
  then obtain p w1 w2 t where
    s: "s = p @ w1 @ 0x40 # w2 @ t" and ne: "w1 \<noteq> []" "w2 \<noteq> []" and
    cl: "\<forall>c\<in>set w1. \<not> line_terminator c" "\<forall>c\<in>set w2. \<not> line_terminator c"
    unfolding test_iff ends_email_pattern_iff by blast
  obtain w1' a where w1: "w1 = w1' @ [a]"
    using ne(1) by (cases w1 rule: rev_cases) auto
  obtain b w2' where w2: "w2 = b # w2'"
    using ne(2) by (cases w2) auto
  have "s = (p @ w1') @ a # 0x40 # b # (w2' @ t)"
    using s w1 w2 by simp
  moreover have "\<not> line_terminator a" "\<not> line_terminator b"
    using cl w1 w2 by auto
  ultimately show ?r by blast
next
  assume ?r
  then obtain u a b v where
    s: "s = u @ a # 0x40 # b # v" and cl: "\<not> line_terminator a" "\<not> line_terminator b"
    by blast
  have "a # 0x40 # b # v = [a] @ 0x40 # [b] @ v \<and> [a] \<noteq> [] \<and> [b] \<noteq> [] \<and>
        (\<forall>c\<in>set [a]. \<not> line_terminator c) \<and> (\<forall>c\<in>set [b]. \<not> line_terminator c)"
    using cl by simp
  then have "ends email_pattern (a # 0x40 # b # v) \<noteq> []"
    unfolding ends_email_pattern_iff by blast
  then show ?l
    unfolding test_iff using s by blast
qed

lemma test_email_pattern_shape: "test email_pattern s \<Longrightarrow> email_shape s"
proof -
  assume "test email_pattern s"
  then obtain u a b v where "s = u @ a # 0x40 # b # v"
    unfolding test_email_pattern_iff by blast
  then have "s = (u @ [a]) @ 0x40 # (b # v)" by simp
  then have "\<exists>u v. u \<noteq> [] \<and> v \<noteq> [] \<and> s = u @ 0x40 # v"
    by blast
  then show "email_shape s"
    by (simp only: email_shape_iff)
qed


section \<open>Properties of the contact form\<close>

lemma valid_shape:
  "valid f \<Longrightarrow> name f \<noteq> [] \<and> email_shape (email f) \<and> 5 < length (message f)"
  by (simp add: valid_def test_email_pattern_shape)

lemma valid_ann: "valid (form ann)"
  by (simp add: valid_def js_def email_pattern_def line_terminator_def ends.simps(4))

text \<open>
  Claim C1. For every form state that passes the guard, \<open>submit\<close> first sets the status to
  loading and then sends exactly one request, a POST to \<open>/api/contact\<close> whose payload is
  the object of the three fields. If the response has a success status the status becomes
  success; if it has any other status, or the request throws, the status becomes error.
  (While the request has not settled the status stays loading.)
\<close>

theorem submit_valid_sends_one_post:
  assumes "valid (form c)"
  shows "snd (submit base out c) =
           [SetStatus Loading,
            Fetch \<lparr>req_method = POST, url = base @ js ''/api/contact'',
                   headers = [(js ''Content-Type'', js ''application/json'')],
                   payload = Some (JObj [(js ''name'', JStr (name (form c))),
                                         (js ''email'', JStr (email (form c))),
                                         (js ''message'', JStr (message (form c)))])\<rparr>] @
           (case out of
              Pending \<Rightarrow> []
            | Threw \<Rightarrow> [SetStatus Error]
            | Responded res \<Rightarrow> [SetStatus (if ok res then Success else Error)])
         \<and> fst (submit base out c) =
             c\<lparr>status :=
                 (case out of
                    Pending \<Rightarrow> Loading
                  | Threw \<Rightarrow> Error
                  | Responded res \<Rightarrow> if ok res then Success else Error)\<rparr>"
  using assms
  by (cases out) (simp_all add: submit_def contact_request_def form_payload_def)

theorem submit_valid_witness:
  "valid (form ann)
   \<and> map (\<lambda>out. fst (submit (BACKEND None) out ann))
       [Responded \<lparr>http_status = 200, body = Unparsable\<rparr>,
        Responded \<lparr>http_status = 500, body = Unparsable\<rparr>, Threw]
     = [ann\<lparr>status := Success\<rparr>, ann\<lparr>status := Error\<rparr>, ann\<lparr>status := Error\<rparr>]"
  using valid_ann
    submit_valid_sends_one_post
      [OF valid_ann, of "BACKEND None" "Responded \<lparr>http_status = 200, body = Unparsable\<rparr>"]
    submit_valid_sends_one_post
      [OF valid_ann, of "BACKEND None" "Responded \<lparr>http_status = 500, body = Unparsable\<rparr>"]
    submit_valid_sends_one_post [OF valid_ann, of "BACKEND None" Threw]
  by (simp add: ok_def)

text \<open>
  Claim C2. When the name is empty, or the e-mail address has no \<open>@\<close> sign with a non-empty
  segment on each side, or the message has five code units or fewer, \<open>submit\<close> does
  nothing: it sends no request and leaves the state, and so the status, as it was.
\<close>

theorem submit_guard_fails_noop:
  assumes "name (form c) = [] \<or> \<not> email_shape (email (form c)) \<or> length (message (form c)) \<le> 5"
  shows "submit base out c = (c, [])"
proof -
  have "\<not> valid (form c)"
    using assms valid_shape [of "form c"] by auto
  then show ?thesis
    by (simp add: submit_def)
qed

theorem submit_guard_fails_witness:
  "name (form nameless) = []
   \<and> submit (BACKEND None) Threw nameless = (nameless, [])
   \<and> status (fst (submit (BACKEND None) Threw nameless)) = Idle
   \<and> email_shape (email (form no_at)) = False
   \<and> submit (BACKEND None) Threw no_at = (no_at, [])
   \<and> length (message (form short_message)) = 5
   \<and> submit (BACKEND None) Threw short_message = (short_message, [])"
proof -
  have 1: "name (form nameless) = []" by simp
  have 2: "\<not> email_shape (email (form no_at))" by (simp add: email_shape_def js_def)
  have 3: "length (message (form short_message)) = 5" by (simp add: js_def)
  show ?thesis
    using 1 2 3
      submit_guard_fails_noop [of nameless "BACKEND None" Threw]
      submit_guard_fails_noop [of no_at "BACKEND None" Threw]
      submit_guard_fails_noop [of short_message "BACKEND None" Threw]
    by simp
qed

text \<open>
  Claim C10. Whenever the status is loading the submit button is disabled, whatever the
  form holds, so that asking for a submission while a request is in flight runs nothing
  and sends nothing.
\<close>

theorem loading_disables_submit:
  assumes "status c = Loading"
  shows "disabled c \<and> request_submit base out accepts c = (c, [])"
  using assms by (simp add: disabled_def request_submit_def)

theorem loading_disables_submit_witness:
  "status (fst (submit (BACKEND None) Pending ann)) = Loading
   \<and> disabled (fst (submit (BACKEND None) Pending ann))
   \<and> request_submit (BACKEND None) Threw True (fst (submit (BACKEND None) Pending ann))
       = (fst (submit (BACKEND None) Pending ann), [])"
proof -
  have l: "status (fst (submit (BACKEND None) Pending ann)) = Loading"
    using valid_ann by (simp add: submit_def)
  show ?thesis
    using l loading_disables_submit [OF l, of "BACKEND None" Threw True] by simp
qed

text \<open>
  Claim C6 says that after a submission has ended in success or in error a new one can be
  triggered only by first editing a field. The source has no such condition: the button is
  disabled only while the form is invalid or the status is loading. Here the form of a
  successful submission is submitted again as it stands, and a request goes out.
\<close>

theorem resubmit_without_edit:
  "status ann_sent = Success
   \<and> form ann_sent = form ann
   \<and> snd (request_submit (BACKEND None) Pending True ann_sent)
       = [SetStatus Loading, Fetch (contact_request (BACKEND None) (form ann))]"
  using valid_ann
  by (simp add: request_submit_def disabled_def submit_def ok_def)

text \<open>
  Claim C6, amended. After a submission has ended in success or in error, asking for a
  submission again runs \<open>submit\<close> as long as the form still passes the guard and the
  browser's validation, whether or not a field was edited in between. The run starts the
  same machine again (loading, then one POST of the present form contents), and no run of
  \<open>submit\<close> changes a field: in particular none is cleared on success.
\<close>

theorem resubmission_restarts:
  assumes "status c = Success \<or> status c = Error" and "valid (form c)" and "accepts"
  shows "request_submit base out accepts c = submit base out c
         \<and> (\<exists>rest. snd (submit base out c)
               = SetStatus Loading # Fetch (contact_request base (form c)) # rest)
         \<and> form (fst (submit base out c)) = form c
         \<and> form (fst (submit base (Responded \<lparr>http_status = 200, body = b\<rparr>) c')) = form c'"
proof -
  have "\<not> disabled c"
    using assms by (auto simp: disabled_def)
  then have 1: "request_submit base out accepts c = submit base out c"
    using assms(3) by (simp add: request_submit_def)
  have 2: "\<exists>rest. snd (submit base out c)
             = SetStatus Loading # Fetch (contact_request base (form c)) # rest"
    using assms(2) by (cases out) (simp_all add: submit_def Let_def)
  have 3: "form (fst (submit base o' d)) = form d" for o' d
    by (cases o') (simp_all add: submit_def Let_def)
  show ?thesis
    using 1 2 3 by simp
qed

theorem resubmission_restarts_witness:
  "(status ann_sent = Success) \<and> valid (form ann_sent)
   \<and> request_submit (BACKEND None) Threw True ann_sent = submit (BACKEND None) Threw ann_sent
   \<and> form (fst (submit (BACKEND None) Threw ann_sent)) = form ann"
proof -
  have s: "status ann_sent = Success" and f: "form ann_sent = form ann"
    using valid_ann by (simp_all add: request_submit_def disabled_def submit_def ok_def)
  have v: "valid (form ann_sent)"
    using valid_ann f by simp
  have d: "status ann_sent = Success \<or> status ann_sent = Error"
    using s by simp
  show ?thesis
    using s v f resubmission_restarts [OF d v, of True "BACKEND None" Threw]
    by simp
qed


section \<open>Properties of the theme\<close>

lemma js_dark_light [simp]: "js ''dark'' \<noteq> js ''light''" "js ''light'' \<noteq> js ''dark''"
  "js ''dark'' \<noteq> []" "js ''light'' \<noteq> []"
  by (simp_all add: js_def)

lemma initial_theme_nonempty: "initial_theme b \<noteq> []"
  by (simp add: initial_theme_def split: option.splits)

lemma toggle_theme_stores:
  "localStorage (browser (toggle_theme a)) (js ''theme'') = Some (theme (toggle_theme a))"
  by (simp add: toggle_theme_def setTheme_def theme_effect_def)

lemma toggle_theme_value:
  "theme (toggle_theme a) = (if theme a = js ''dark'' then js ''light'' else js ''dark'')"
  by (simp add: toggle_theme_def setTheme_def)

text \<open>
  Claim C7. Toggling the theme makes it \<open>light\<close> or \<open>dark\<close> and writes the new value to
  the local store. Initialisation returns a stored value that is present (and not the
  empty string, which the source treats as absent and never writes), whatever the ambient
  colour scheme is; so a page load that finds the store as the toggle left it starts with
  the toggled theme, as one that finds it as a mount left it starts with the theme of that
  mount. With no stored value, initialisation follows the ambient signal.
\<close>

theorem theme_round_trip:
  "theme (toggle_theme a) = (if theme a = js ''dark'' then js ''light'' else js ''dark'')
   \<and> localStorage (browser (toggle_theme a)) (js ''theme'') = Some (theme (toggle_theme a))
   \<and> (localStorage b (js ''theme'') = Some v \<and> v \<noteq> []
        \<longrightarrow> initial_theme (b\<lparr>prefers_dark := amb\<rparr>) = v)
   \<and> (localStorage b = localStorage (browser (toggle_theme a))
        \<longrightarrow> theme (mount (b\<lparr>prefers_dark := amb\<rparr>)) = theme (toggle_theme a))
   \<and> (localStorage b = localStorage (browser (mount b0))
        \<longrightarrow> theme (mount (b\<lparr>prefers_dark := amb\<rparr>)) = theme (mount b0))
   \<and> (localStorage b (js ''theme'') = None
        \<longrightarrow> initial_theme b = (if prefers_dark b then js ''dark'' else js ''light''))"
proof -
  have st: "localStorage (browser (toggle_theme a)) (js ''theme'') = Some (theme (toggle_theme a))"
    by (rule toggle_theme_stores)
  have ne: "theme (toggle_theme a) \<noteq> []"
    by (simp add: toggle_theme_value)
  have rt: "theme (mount (b\<lparr>prefers_dark := amb\<rparr>)) = theme (toggle_theme a)"
    if "localStorage b = localStorage (browser (toggle_theme a))"
    using that st ne by (simp add: mount_def Let_def initial_theme_def)
  have mt: "theme (mount (b\<lparr>prefers_dark := amb\<rparr>)) = theme (mount b0)"
    if "localStorage b = localStorage (browser (mount b0))"
    using that initial_theme_nonempty [of b0]
    by (simp add: mount_def Let_def theme_effect_def initial_theme_def)
  show ?thesis
    using st rt mt by (simp add: toggle_theme_value initial_theme_def)
qed

theorem theme_round_trip_witness:
  "theme (toggle_theme (mount fresh_light)) = js ''dark''
   \<and> localStorage (browser (toggle_theme (mount fresh_light))) (js ''theme'') = Some (js ''dark'')
   \<and> theme (mount ((browser (toggle_theme (mount fresh_light)))\<lparr>prefers_dark := False\<rparr>))
       = js ''dark''
   \<and> initial_theme stored_light = js ''light''
   \<and> initial_theme fresh_light = js ''light''"
proof -
  have t: "theme (mount fresh_light) = js ''light''"
    by (simp add: mount_def Let_def initial_theme_def)
  have s: "localStorage stored_light (js ''theme'') = Some (js ''light'') \<and> js ''light'' \<noteq> []"
    by simp
  have n: "localStorage fresh_light (js ''theme'') = None"
    by simp
  show ?thesis
    using t s n
      theme_round_trip [of "mount fresh_light" "browser (toggle_theme (mount fresh_light))"
        "js ''dark''" False fresh_light]
      theme_round_trip [of "mount fresh_light" stored_light "js ''light''" True fresh_light]
      theme_round_trip [of "mount fresh_light" fresh_light "js ''light''" False fresh_light]
    by simp
qed

text \<open>
  Claim C8. After the mount the dark marker is on the document root for every stored and
  ambient configuration, also when the theme that was initialised is \<open>light\<close>.
\<close>

theorem mount_forces_dark:
  "js ''dark'' \<in> classList (browser (mount b))
   \<and> (localStorage b (js ''theme'') = Some (js ''light'') \<longrightarrow> theme (mount b) = js ''light'')
   \<and> (localStorage b (js ''theme'') = None \<and> \<not> prefers_dark b
        \<longrightarrow> theme (mount b) = js ''light'')"
  by (simp add: mount_def Let_def initial_theme_def)

theorem mount_forces_dark_witness:
  "js ''dark'' \<in> classList (browser (mount stored_light))
   \<and> theme (mount stored_light) = js ''light''
   \<and> js ''dark'' \<in> classList (browser (mount fresh_light))
   \<and> theme (mount fresh_light) = js ''light''"
  using mount_forces_dark [of stored_light] mount_forces_dark [of fresh_light]
  by simp


section \<open>Properties of the posts section\<close>

text \<open>
  Claim C9. When the posts request fails (the request throws or the body does not parse)
  or returns an empty collection, \<open>Blog\<close> returns \<open>null\<close>: nothing is emitted, no
  container and no message.
\<close>

theorem blog_renders_nothing:
  assumes "out = Threw
           \<or> (\<exists>res. out = Responded res \<and> (body res = Unparsable \<or> body res = Parsed (JArr [])))"
  shows "Blog (load_posts out Blog_init) = Inr None"
  using assms
  by (auto simp: load_posts_def Blog_init_def Blog_def)

theorem blog_renders_nothing_witness:
  "Blog (load_posts Threw Blog_init) = Inr None
   \<and> Blog (load_posts (Responded \<lparr>http_status = 502, body = Unparsable\<rparr>) Blog_init) = Inr None
   \<and> Blog (load_posts (Responded \<lparr>http_status = 200, body = Parsed (JArr [])\<rparr>) Blog_init)
       = Inr None"
  using blog_renders_nothing [of Threw]
    blog_renders_nothing [of "Responded \<lparr>http_status = 502, body = Unparsable\<rparr>"]
    blog_renders_nothing [of "Responded \<lparr>http_status = 200, body = Parsed (JArr [])\<rparr>"]
  by simp


section \<open>Properties of the project gallery\<close>

text \<open>
  Claim C3 asks that every failure of the projects request, a non-success response with a
  JSON body included, ends in the static error string. \<open>load\<close> does not look at the
  status, unlike \<open>submit\<close>: the body of a 404 response is stored as the collection, no
  error is set, and the next render throws at \<open>projects.flatMap\<close>. A request that throws
  does end in the error string.
\<close>

theorem projects_error_response_crashes:
  "\<not> ok not_found
   \<and> error (load (Responded not_found) Projects_init) = []
   \<and> loading (load (Responded not_found) Projects_init) = False
   \<and> Projects (load (Responded not_found) Projects_init) = Inl TypeError
   \<and> Projects (load Threw Projects_init)
       = Inr \<lparr>pills = [JStr (js ''All'')], listing = ErrorText (js ''Could not load projects'')\<rparr>"
  by (simp add: ok_def load_def Projects_init_def Projects_def tags_def filtered_def new_Set_def
      js_def)

lemma map_JStr_label: "list_all is_label ts \<Longrightarrow> map (JStr \<circ> label) ts = ts"
proof (induction ts)
  case Nil
  show ?case by simp
next
  case (Cons t ts)
  then show ?case by (cases t) simp_all
qed

lemma label_mem: "list_all is_label ts \<Longrightarrow> JStr a \<in> set ts \<longleftrightarrow> a \<in> set (map label ts)"
proof (induction ts)
  case Nil
  show ?case by simp
next
  case (Cons t ts)
  then show ?case by (cases t) auto
qed

lemma read_project: "is_project p \<Longrightarrow> read p k = Inr (own p k)"
  by (cases p) (simp_all add: read_def)

lemma tags_or_empty_project:
  assumes "is_project p"
  shows "tags_or_empty p = Inr (JArr (map JStr (project_tags p)))"
proof -
  obtain kvs where p: "p = JObj kvs"
    using assms by (cases p) simp_all
  show ?thesis
  proof (cases "map_of (rev kvs) (js ''tags'')")
    case None
    then show ?thesis
      by (simp add: p tags_or_empty_def read_def own_def project_tags_def)
  next
    case (Some v)
    then show ?thesis
      using assms
      by (cases v)
        (simp_all add: p tags_or_empty_def read_def own_def project_tags_def map_JStr_label)
  qed
qed

lemma flatMap_projects:
  "list_all is_project ps \<Longrightarrow>
     flatMap tags_or_empty ps = Inr (map JStr (concat (map project_tags ps)))"
  by (induction ps) (simp_all add: tags_or_empty_project)

lemma set_add_label:
  "set_add (map JStr ls) (JStr x) = map JStr (if x \<in> set ls then ls else ls @ [x])"
  by (auto simp: set_add_def same_value_zero_def list_ex_iff)

lemma new_Set_snoc: "new_Set (xs @ [x]) = set_add (new_Set xs) x"
  by (simp add: new_Set_def)

lemma first_index_less: "a \<in> set xs \<Longrightarrow> first_index a xs < length xs"
  unfolding first_index_def by (induction xs) auto

lemma first_index_snoc_old: "a \<in> set xs \<Longrightarrow> first_index a (xs @ ys) = first_index a xs"
  unfolding first_index_def by simp

lemma first_index_snoc_new: "x \<notin> set xs \<Longrightarrow> first_index x (xs @ [x]) = length xs"
proof -
  assume "x \<notin> set xs"
  then have "takeWhile (\<lambda>y. y \<noteq> x) (xs @ [x]) = xs @ takeWhile (\<lambda>y. y \<noteq> x) [x]"
    by (intro takeWhile_append2) auto
  then show ?thesis
    by (simp add: first_index_def)
qed

lemma new_Set_labels:
  "\<exists>ls. new_Set (map JStr xs) = map JStr ls \<and> distinct ls \<and> set ls = set xs
        \<and> sorted_wrt (\<lambda>a b. first_index a xs < first_index b xs) ls"
proof (induction xs rule: rev_induct)
  case Nil
  show ?case by (simp add: new_Set_def)
next
  case (snoc x xs)
  then obtain ls where ls: "new_Set (map JStr xs) = map JStr ls" "distinct ls" "set ls = set xs"
      "sorted_wrt (\<lambda>a b. first_index a xs < first_index b xs) ls"
    by blast
  let ?ls = "if x \<in> set ls then ls else ls @ [x]"
  let ?R = "\<lambda>a b. first_index a (xs @ [x]) < first_index b (xs @ [x])"
  have 1: "new_Set (map JStr (xs @ [x])) = map JStr ?ls"
    using ls(1) by (simp only: map_append list.map new_Set_snoc set_add_label)
  have 2: "distinct ?ls" "set ?ls = set (xs @ [x])"
    using ls(2,3) by auto
  have old: "sorted_wrt ?R ls"
  proof (rule sorted_wrt_mono_rel [OF _ ls(4)])
    fix a b
    assume "a \<in> set ls" "b \<in> set ls" "first_index a xs < first_index b xs"
    then show "?R a b"
      using ls(3) by (simp add: first_index_snoc_old)
  qed
  have 3: "sorted_wrt ?R ?ls"
  proof (cases "x \<in> set ls")
    case True
    then show ?thesis using old by simp
  next
    case False
    then have "x \<notin> set xs" using ls(3) by simp
    then have "\<forall>a\<in>set ls. ?R a x"
      using ls(3) by (simp add: first_index_snoc_old first_index_snoc_new first_index_less)
    then show ?thesis
      using old False by (simp add: sorted_wrt_append)
  qed
  show ?case
    using 1 2 3 by blast
qed

lemma is_project_gallery: "list_all is_project gallery"
  by (simp add: js_def)

text \<open>
  Claim C4. For every fetched project collection, the derived tag list holds each tag that
  occurs in some project exactly once, in the order in which the tags first appear across
  the projects as fetched; and with the pill \<open>All\<close> active the collection is shown
  unchanged.
\<close>

theorem tags_once_in_first_appearance_order:
  assumes "list_all is_project ps"
  shows "filtered (JArr ps) (js ''All'') = Inr (JArr ps)
         \<and> (\<exists>ls. tags (JArr ps) = Inr (map JStr ls)
               \<and> distinct ls
               \<and> set ls = (\<Union>p\<in>set ps. set (project_tags p))
               \<and> sorted_wrt
                   (\<lambda>a b. first_index a (concat (map project_tags ps))
                            < first_index b (concat (map project_tags ps))) ls)"
proof -
  obtain ls where ls: "new_Set (map JStr (concat (map project_tags ps))) = map JStr ls"
      "distinct ls" "set ls = set (concat (map project_tags ps))"
      "sorted_wrt (\<lambda>a b. first_index a (concat (map project_tags ps))
                          < first_index b (concat (map project_tags ps))) ls"
    using new_Set_labels [of "concat (map project_tags ps)"] by blast
  have "tags (JArr ps) = Inr (map JStr ls)"
    using assms ls(1) by (simp add: tags_def flatMap_projects)
  moreover have "set ls = (\<Union>p\<in>set ps. set (project_tags p))"
    using ls(3) by simp
  moreover have "filtered (JArr ps) (js ''All'') = Inr (JArr ps)"
    by (simp add: filtered_def)
  ultimately show ?thesis
    using ls(2,4) by blast
qed

theorem tags_once_witness:
  "list_all is_project gallery
   \<and> tags (JArr gallery) = Inr [JStr (js ''react''), JStr (js ''rust''), JStr (js ''go'')]
   \<and> filtered (JArr gallery) (js ''All'') = Inr (JArr gallery)"
  using is_project_gallery tags_once_in_first_appearance_order [OF is_project_gallery]
  by (simp add: tags_def tags_or_empty_def read_def own_def new_Set_def set_add_def
      same_value_zero_def js_def)

lemma has_active_project:
  assumes "is_project p"
  shows "has_active a p = Inr (a \<in> set (project_tags p))"
proof -
  obtain kvs where p: "p = JObj kvs"
    using assms by (cases p) simp_all
  show ?thesis
  proof (cases "map_of (rev kvs) (js ''tags'')")
    case None
    then show ?thesis
      by (simp add: p has_active_def read_def own_def project_tags_def)
  next
    case (Some v)
    then show ?thesis
      using assms
      by (cases v)
        (simp_all add: p has_active_def read_def own_def project_tags_def label_mem)
  qed
qed

lemma filter_js_total:
  "(\<And>p. p \<in> set ps \<Longrightarrow> f p = Inr (g p)) \<Longrightarrow> filter_js f ps = Inr (filter g ps)"
  by (induction ps) simp_all

text \<open>
  Claim C5. For every fetched project collection and every tag other than \<open>All\<close>, the
  filter keeps exactly the projects whose tag list contains the tag, in their order; a
  project without a tag list is kept by no such filter.
\<close>

theorem filtered_by_tag_membership:
  assumes "list_all is_project ps" and "a \<noteq> js ''All''"
  shows "filtered (JArr ps) a = Inr (JArr (filter (\<lambda>p. a \<in> set (project_tags p)) ps))
         \<and> (\<forall>p. own p (js ''tags'') = None \<or> own p (js ''tags'') = Some JNull
               \<longrightarrow> p \<notin> set (filter (\<lambda>p. a \<in> set (project_tags p)) ps))"
proof -
  have "filter_js (has_active a) ps = Inr (filter (\<lambda>p. a \<in> set (project_tags p)) ps)"
    using assms(1) by (intro filter_js_total) (simp add: list_all_iff has_active_project)
  then have "filtered (JArr ps) a = Inr (JArr (filter (\<lambda>p. a \<in> set (project_tags p)) ps))"
    using assms(2) by (simp add: filtered_def)
  moreover have "p \<notin> set (filter (\<lambda>p. a \<in> set (project_tags p)) ps)"
    if "own p (js ''tags'') = None \<or> own p (js ''tags'') = Some JNull" for p
    using that by (auto simp: project_tags_def)
  ultimately show ?thesis by blast
qed

theorem filtered_by_tag_witness:
  "list_all is_project gallery \<and> js ''rust'' \<noteq> js ''All''
   \<and> filtered (JArr gallery) (js ''rust'') = Inr (JArr [gallery ! 0, gallery ! 2])
   \<and> filtered (JArr gallery) (js ''go'') = Inr (JArr [gallery ! 2])"
proof -
  have r: "js ''rust'' \<noteq> js ''All''" and g: "js ''go'' \<noteq> js ''All''"
    by (simp_all add: js_def)
  show ?thesis
    using is_project_gallery r
      filtered_by_tag_membership [OF is_project_gallery r]
      filtered_by_tag_membership [OF is_project_gallery g]
    by (simp add: project_tags_def own_def js_def)
qed

end
